theory Spec2Isabelle
  imports Complex_Main "HOL-Library.AList" "HOL-Library.Char_ord" "HOL-Library.List_Lexorder"
begin

section \<open>Data model (models.py, services.py)\<close>

text \<open>
  Amounts are Python floats in the source. They are modelled as exact rationals: every
  sum, difference and quotient below is the exact one, and \<open>round(x, 2)\<close> is the
  rounding to the closest multiple of 1/100 with ties going to the even multiple, which
  is what Python documents for \<open>round\<close>. What the binary representation of a float
  adds to that (a difference such as 0.03 - 0.02 falling just below 0.01) is outside
  the model; the concrete inputs used below stay away from rounding ties and from the
  thresholds. Identifiers are Python's unbounded integers, names are strings, and the
  readings of \<open>datetime.now()\<close> are passed in as arguments.
\<close>

type_synonym timestamp = nat

text \<open>The dictionaries that \<open>add_expense\<close> stores in \<open>self.expenses\<close>.\<close>

record expense =
  eid :: int
  amount :: rat
  description :: string
  paid_by :: string
  created_at :: timestamp
  updated_at :: timestamp

text \<open>\<open>ExpenseCreate\<close> and \<open>ExpenseUpdate\<close> (each field of the latter is optional).\<close>

record expense_create =
  c_amount :: rat
  c_description :: string
  c_paid_by :: string

record expense_update =
  u_amount :: "rat option"
  u_description :: "string option"
  u_paid_by :: "string option"

record balance_response =
  person :: string
  balance :: rat
  status :: string

record settlement_response =
  from_person :: string
  to_person :: string
  s_amount :: rat

record person_response =
  name :: string
  total_paid :: rat
  total_expenses :: nat
  p_balance :: rat

text \<open>The state of an \<open>ExpenseService\<close> object.\<close>

record service =
  expenses :: "expense list"
  next_id :: int

datatype error = KeyError

section \<open>The expense store\<close>

definition add_expense :: "timestamp \<Rightarrow> expense_create \<Rightarrow> service \<Rightarrow> expense \<times> service" where
  "add_expense now e s =
     (let new_expense =
            \<lparr>eid = next_id s, amount = c_amount e, description = c_description e,
             paid_by = c_paid_by e, created_at = now, updated_at = now\<rparr>
      in (new_expense,
          s\<lparr>expenses := expenses s @ [new_expense], next_id := next_id s + 1\<rparr>))"

definition test_expenses :: "expense_create list" where
  "test_expenses =
     [\<lparr>c_amount = 600, c_description = ''Dinner'', c_paid_by = ''Shantanu''\<rparr>,
      \<lparr>c_amount = 450, c_description = ''Groceries'', c_paid_by = ''Sanket''\<rparr>,
      \<lparr>c_amount = 300, c_description = ''Petrol'', c_paid_by = ''Om''\<rparr>,
      \<lparr>c_amount = 500, c_description = ''Movie Tickets'', c_paid_by = ''Shantanu''\<rparr>,
      \<lparr>c_amount = 280, c_description = ''Pizza'', c_paid_by = ''Sanket''\<rparr>]"

text \<open>
  \<open>__init__\<close>: an empty list, \<open>next_id = 1\<close>, then one \<open>add_expense\<close> for each
  test expense; \<open>now\<close> is the clock reading of those calls.
\<close>

definition initialize_test_data :: "timestamp \<Rightarrow> service \<Rightarrow> service" where
  "initialize_test_data now s = foldl (\<lambda>s e. snd (add_expense now e s)) s test_expenses"

definition empty_service :: service where
  "empty_service = \<lparr>expenses = [], next_id = 1\<rparr>"

definition new_service :: "timestamp \<Rightarrow> service" where
  "new_service now = initialize_test_data now empty_service"

definition get_all_expenses :: "service \<Rightarrow> expense list" where
  "get_all_expenses s = expenses s"

text \<open>The first stored expense with the identifier, or \<open>KeyError\<close>.\<close>

definition get_expense_by_id :: "int \<Rightarrow> service \<Rightarrow> error + expense" where
  "get_expense_by_id expense_id s =
     (case find (\<lambda>e. eid e = expense_id) (expenses s) of
        None \<Rightarrow> Inl KeyError
      | Some e \<Rightarrow> Inr e)"

text \<open>
  \<open>update_expense\<close> assigns to the fields of the dictionary that the lookup returned,
  which is the object at the first position of the list with that identifier.
\<close>

definition apply_update :: "timestamp \<Rightarrow> expense_update \<Rightarrow> expense \<Rightarrow> expense" where
  "apply_update now u e =
     (let e1 = (case u_amount u of None \<Rightarrow> e | Some a \<Rightarrow> e\<lparr>amount := a\<rparr>);
          e2 = (case u_description u of None \<Rightarrow> e1 | Some d \<Rightarrow> e1\<lparr>description := d\<rparr>);
          e3 = (case u_paid_by u of None \<Rightarrow> e2 | Some p \<Rightarrow> e2\<lparr>paid_by := p\<rparr>)
      in e3\<lparr>updated_at := now\<rparr>)"

fun assign_first :: "int \<Rightarrow> expense \<Rightarrow> expense list \<Rightarrow> expense list" where
  "assign_first i e' [] = []"
| "assign_first i e' (e # es) = (if eid e = i then e' # es else e # assign_first i e' es)"

definition update_expense ::
  "timestamp \<Rightarrow> int \<Rightarrow> expense_update \<Rightarrow> service \<Rightarrow> (error + expense) \<times> service" where
  "update_expense now expense_id expense_update s =
     (case get_expense_by_id expense_id s of
        Inl err \<Rightarrow> (Inl err, s)
      | Inr e \<Rightarrow>
          (let e' = apply_update now expense_update e
           in (Inr e', s\<lparr>expenses := assign_first expense_id e' (expenses s)\<rparr>)))"

text \<open>\<open>list.remove\<close> deletes the first element equal to its argument.\<close>

definition delete_expense :: "int \<Rightarrow> service \<Rightarrow> (error + unit) \<times> service" where
  "delete_expense expense_id s =
     (case get_expense_by_id expense_id s of
        Inl err \<Rightarrow> (Inl err, s)
      | Inr e \<Rightarrow> (Inr (), s\<lparr>expenses := remove1 e (expenses s)\<rparr>))"

text \<open>
  A run of the store: the requests of the transport layer, served one after the other.
  A request that raises leaves the object as it was and the run goes on. The trace lists
  the identifiers handed out and the identifiers deleted, in the order of the run.
\<close>

datatype request =
    Add timestamp expense_create
  | Update timestamp int expense_update
  | Delete int

datatype event = Assigned int | Deleted int

fun serve :: "request \<Rightarrow> service \<Rightarrow> service" where
  "serve (Add now e) s = snd (add_expense now e s)"
| "serve (Update now i u) s = snd (update_expense now i u s)"
| "serve (Delete i) s = snd (delete_expense i s)"

fun events :: "request \<Rightarrow> service \<Rightarrow> event list" where
  "events (Add now e) s = [Assigned (eid (fst (add_expense now e s)))]"
| "events (Update now i u) s = []"
| "events (Delete i) s = (case fst (delete_expense i s) of Inl err \<Rightarrow> [] | Inr u \<Rightarrow> [Deleted i])"

fun run :: "request list \<Rightarrow> service \<Rightarrow> service" where
  "run [] s = s"
| "run (r # rs) s = run rs (serve r s)"

fun trace :: "request list \<Rightarrow> service \<Rightarrow> event list" where
  "trace [] s = []"
| "trace (r # rs) s = events r s @ trace rs (serve r s)"

fun assigned :: "event list \<Rightarrow> int list" where
  "assigned [] = []"
| "assigned (Assigned i # evs) = i # assigned evs"
| "assigned (Deleted i # evs) = assigned evs"

definition stored_ids :: "service \<Rightarrow> int list" where
  "stored_ids s = map eid (expenses s)"

text \<open>
  The history of an object: the events of its constructor, which adds the test expenses,
  followed by the events of the requests it served.
\<close>

definition history :: "timestamp \<Rightarrow> request list \<Rightarrow> event list" where
  "history now rs = trace (map (Add now) test_expenses @ rs) empty_service"

text \<open>Every stored identifier is below the next one to hand out, and none is stored twice.\<close>

definition store_inv :: "service \<Rightarrow> bool" where
  "store_inv s = (distinct (stored_ids s) \<and> (\<forall>x \<in> set (stored_ids s). x < next_id s))"

section \<open>Python dictionaries and rounding\<close>

text \<open>
  A dictionary is an association list in insertion order: \<open>d[k] = v\<close> is
  \<open>AList.update k v d\<close>, \<open>d.items()\<close> is the list itself and \<open>d.get(k, default)\<close> is
  \<open>dict_get\<close>.
\<close>

definition dict_get :: "('k \<times> 'v) list \<Rightarrow> 'k \<Rightarrow> 'v \<Rightarrow> 'v" where
  "dict_get d k dflt = (case map_of d k of None \<Rightarrow> dflt | Some v \<Rightarrow> v)"

text \<open>Rounding to an integer, a tie going to the even neighbour.\<close>

definition round_half_even :: "rat \<Rightarrow> int" where
  "round_half_even x =
     (let f = \<lfloor>x\<rfloor>; d = x - of_int f
      in if d < 1 / 2 then f
         else if 1 / 2 < d then f + 1
         else if even f then f else f + 1)"

text \<open>\<open>round(x, 2)\<close>.\<close>

definition round2 :: "rat \<Rightarrow> rat" where
  "round2 x = of_int (round_half_even (x * 100)) / 100"

section \<open>The balance reducer\<close>

definition total_amount :: "service \<Rightarrow> rat" where
  "total_amount s = sum_list (map amount (expenses s))"

definition unique_people :: "service \<Rightarrow> string set" where
  "unique_people s = set (map paid_by (expenses s))"

definition num_people :: "service \<Rightarrow> nat" where
  "num_people s = card (unique_people s)"

text \<open>
  Python leaves the order in which a \<open>set\<close> is iterated unspecified. The loop over
  \<open>unique_people\<close> therefore takes the order as an argument: \<open>iterates order S\<close> says
  that \<open>order\<close> enumerates the set \<open>S\<close>, each element once.
\<close>

definition iterates :: "'a list \<Rightarrow> 'a set \<Rightarrow> bool" where
  "iterates order S = (distinct order \<and> set order = S)"

text \<open>The loop that fills \<open>paid_by_person\<close>.\<close>

fun paid_by_person :: "expense list \<Rightarrow> (string \<times> rat) list \<Rightarrow> (string \<times> rat) list" where
  "paid_by_person [] d = d"
| "paid_by_person (e # es) d =
     paid_by_person es (AList.update (paid_by e) (dict_get d (paid_by e) 0 + amount e) d)"

text \<open>The loop that fills \<open>balances\<close>, one key for each person of the iteration.\<close>

fun fill_balances ::
  "(string \<times> rat) list \<Rightarrow> rat \<Rightarrow> string list \<Rightarrow> (string \<times> rat) list \<Rightarrow> (string \<times> rat) list" where
  "fill_balances paid per_person_share [] balances = balances"
| "fill_balances paid per_person_share (p # ps) balances =
     (let amount_paid = dict_get paid p 0;
          b = amount_paid - per_person_share
      in fill_balances paid per_person_share ps (AList.update p (round2 b) balances))"

text \<open>
  \<open>_calculate_individual_balances\<close>. Beside the dictionary, the traced function tells
  which \<open>return\<close> statement was taken: the one for an empty list, the one of the guard
  \<open>num_people == 0\<close>, or the last. The division is reached in the last branch only.
\<close>

datatype branch = Empty_Input | No_People | Computed

definition individual_balances_traced :: "string list \<Rightarrow> service \<Rightarrow> branch \<times> (string \<times> rat) list" where
  "individual_balances_traced order s =
     (if expenses s = [] then (Empty_Input, [])
      else if num_people s = 0 then (No_People, [])
      else
        (let per_person_share = total_amount s / of_nat (num_people s);
             paid = paid_by_person (expenses s) []
         in (Computed, fill_balances paid per_person_share order [])))"

definition calculate_individual_balances :: "string list \<Rightarrow> service \<Rightarrow> (string \<times> rat) list" where
  "calculate_individual_balances order s = snd (individual_balances_traced order s)"

text \<open>
  The reducer in the words of the specification: what a person paid, and the net balance
  of a person, the rounded difference between what they paid and the equal share.
\<close>

definition paid_total :: "service \<Rightarrow> string \<Rightarrow> rat" where
  "paid_total s p = sum_list (map amount (filter (\<lambda>e. paid_by e = p) (expenses s)))"

definition net_balance :: "service \<Rightarrow> string \<Rightarrow> rat" where
  "net_balance s p =
     round2 (paid_total s p - sum_list (map amount (expenses s)) / of_nat (card (paid_by ` set (expenses s))))"

section \<open>Balances, settlements and people\<close>

definition balance_status :: "rat \<Rightarrow> string" where
  "balance_status b =
     (if b > 1 / 100 then ''gets''
      else if b < - (1 / 100) then ''owes''
      else ''even'')"

definition calculate_balances :: "string list \<Rightarrow> service \<Rightarrow> balance_response list" where
  "calculate_balances order s =
     sort_key person
       (map (\<lambda>(p, b). \<lparr>person = p, balance = \<bar>b\<bar>, status = balance_status b\<rparr>)
          (calculate_individual_balances order s))"

text \<open>The entries of the lists \<open>debtors\<close> and \<open>creditors\<close>: a person and an amount.\<close>

record entry =
  e_person :: string
  e_amount :: rat

fun partition_balances :: "(string \<times> rat) list \<Rightarrow> entry list \<times> entry list" where
  "partition_balances [] = ([], [])"
| "partition_balances ((p, b) # rest) =
     (let (debtors, creditors) = partition_balances rest
      in if b < - (1 / 100) then (\<lparr>e_person = p, e_amount = \<bar>b\<bar>\<rparr> # debtors, creditors)
         else if b > 1 / 100 then (debtors, \<lparr>e_person = p, e_amount = b\<rparr> # creditors)
         else (debtors, creditors))"

text \<open>\<open>sort(key = amount, reverse = True)\<close>: stable, largest amount first.\<close>

definition sort_reverse :: "entry list \<Rightarrow> entry list" where
  "sort_reverse xs = sort_key (\<lambda>x. - e_amount x) xs"

text \<open>
  One round of the two-cursor loop, from the cursors, the two lists and the settlements
  emitted so far to their values after the round. The list update is the assignment to
  the \<open>amount\<close> of the entry at the cursor.
\<close>

type_synonym loop_state = "nat \<times> nat \<times> entry list \<times> entry list \<times> settlement_response list"

definition loop_body ::
  "nat \<Rightarrow> nat \<Rightarrow> entry list \<Rightarrow> entry list \<Rightarrow> settlement_response list \<Rightarrow> loop_state" where
  "loop_body i j debtors creditors settlements =
     (let debtor = debtors ! i;
          creditor = creditors ! j;
          settlement_amount = min (e_amount debtor) (e_amount creditor);
          significant = (settlement_amount > 1 / 100);
          settlements' =
            (if significant
             then settlements @
                    [\<lparr>from_person = e_person debtor, to_person = e_person creditor,
                      s_amount = round2 settlement_amount\<rparr>]
             else settlements);
          debtor' =
            (if significant then debtor\<lparr>e_amount := e_amount debtor - settlement_amount\<rparr>
             else debtor);
          creditor' =
            (if significant then creditor\<lparr>e_amount := e_amount creditor - settlement_amount\<rparr>
             else creditor);
          i' = (if e_amount debtor' < 1 / 100 then i + 1 else i);
          j' = (if e_amount creditor' < 1 / 100 then j + 1 else j)
      in (i', j', debtors[i := debtor'], creditors[j := creditor'], settlements'))"

text \<open>
  The loop. Nothing in it bounds the number of its rounds, so the function is partial and
  \<open>None\<close> stands for a loop that never ends.
\<close>

partial_function (option) settle_loop ::
  "nat \<Rightarrow> nat \<Rightarrow> entry list \<Rightarrow> entry list \<Rightarrow> settlement_response list
     \<Rightarrow> settlement_response list option" where
  "settle_loop i j debtors creditors settlements =
     (if i < length debtors \<and> j < length creditors then
        (case loop_body i j debtors creditors settlements of
           (i', j', debtors', creditors', settlements') \<Rightarrow>
             settle_loop i' j' debtors' creditors' settlements')
      else Some settlements)"

declare settle_loop.simps [code]

text \<open>The settlement matcher on a dictionary of balances.\<close>

definition match_balances :: "(string \<times> rat) list \<Rightarrow> settlement_response list option" where
  "match_balances balances =
     (if balances = [] then Some []
      else
        (let (debtors, creditors) = partition_balances balances
         in settle_loop 0 0 (sort_reverse debtors) (sort_reverse creditors) []))"

definition calculate_settlements :: "string list \<Rightarrow> service \<Rightarrow> settlement_response list option" where
  "calculate_settlements order s = match_balances (calculate_individual_balances order s)"

text \<open>The loop that fills \<open>people_data\<close>: total paid and number of expenses.\<close>

fun people_data :: "expense list \<Rightarrow> (string \<times> rat \<times> nat) list \<Rightarrow> (string \<times> rat \<times> nat) list" where
  "people_data [] d = d"
| "people_data (e # es) d =
     (let (paid, n) = dict_get d (paid_by e) (0, 0)
      in people_data es (AList.update (paid_by e) (paid + amount e, n + 1) d))"

definition get_all_people :: "string list \<Rightarrow> service \<Rightarrow> person_response list" where
  "get_all_people order s =
     (let balances = calculate_individual_balances order s
      in sort_key name
           (map (\<lambda>(p, paid, n).
                   \<lparr>name = p, total_paid = paid, total_expenses = n,
                    p_balance = dict_get balances p 0\<rparr>)
              (people_data (expenses s) [])))"





section \<open>Invariants of the two-cursor loop\<close>



text \<open>A whole number of hundredths.\<close>

definition cents :: "rat \<Rightarrow> bool" where
  "cents x = (x * 100 \<in> \<int>)"



text \<open>
  One side of the match, relative to the sorted list \<open>xs0\<close> the loop started from and to
  the money \<open>flow\<close> that the settlements emitted so far move for each name: the names
  are unchanged, every amount is the initial amount minus that flow, lies between zero
  and the initial amount and is a whole number of hundredths, and every entry the
  cursor has passed is below 0.01.
\<close>

definition side_inv :: "entry list \<Rightarrow> (string \<Rightarrow> rat) \<Rightarrow> nat \<Rightarrow> entry list \<Rightarrow> bool" where
  "side_inv xs0 flow i xs =
     (map e_person xs = map e_person xs0 \<and>
      (\<forall>k < length xs.
         e_amount (xs ! k) = e_amount (xs0 ! k) - flow (e_person (xs0 ! k)) \<and>
         0 \<le> e_amount (xs ! k) \<and> e_amount (xs ! k) \<le> e_amount (xs0 ! k) \<and>
         cents (e_amount (xs ! k)) \<and>
         (k < i \<longrightarrow> e_amount (xs ! k) < 1 / 100)))"


section \<open>Snapshots reached through the store\<close>

text \<open>
  An object always starts with the test expenses. \<open>ledger now xs\<close> is the object after
  the five test expenses have been deleted and one expense has been added for each pair
  (amount, payer) of \<open>xs\<close>, in that order.
\<close>

definition ledger :: "timestamp \<Rightarrow> (rat \<times> string) list \<Rightarrow> service" where
  "ledger now xs =
     run (map Delete [1, 2, 3, 4, 5] @
          map (\<lambda>(a, p). Add now \<lparr>c_amount = a, c_description = ''Shared'', c_paid_by = p\<rparr>) xs)
       (new_service now)"

section \<open>The store: identifiers and failed calls\<close>

lemma find_Some_set: "find P xs = Some x \<Longrightarrow> x \<in> set xs \<and> P x"
  by (induction xs) (auto split: if_splits)

lemma get_expense_by_id_KeyError:
  "get_expense_by_id i s = Inl KeyError \<longleftrightarrow> i \<notin> set (stored_ids s)"
proof (cases "find (\<lambda>e. eid e = i) (expenses s)")
  case None
  then have "i \<notin> set (stored_ids s)"
    by (auto simp: stored_ids_def find_None_iff)
  then show ?thesis using None
    by (simp add: get_expense_by_id_def)
next
  case (Some e)
  then have "e \<in> set (expenses s) \<and> eid e = i" by (rule find_Some_set)
  then show ?thesis using Some
    by (auto simp: get_expense_by_id_def stored_ids_def)
qed

lemma get_expense_by_id_found:
  "get_expense_by_id i s = Inr e \<Longrightarrow> e \<in> set (expenses s) \<and> eid e = i"
  by (auto simp: get_expense_by_id_def split: option.splits dest: find_Some_set)

lemma eid_apply_update: "eid (apply_update now u e) = eid e"
  by (simp add: apply_update_def Let_def split: option.splits)

lemma map_eid_assign_first: "eid e' = i \<Longrightarrow> map eid (assign_first i e' es) = map eid es"
  by (induction es) auto

lemma distinct_map_remove1: "distinct (map f xs) \<Longrightarrow> distinct (map f (remove1 x xs))"
proof (induction xs)
  case Nil
  then show ?case by simp
next
  case (Cons a xs)
  have "f a \<notin> f ` set (remove1 x xs)"
    using Cons.prems set_remove1_subset [of x xs] by auto
  then show ?case using Cons by auto
qed

lemma set_map_remove1: "set (map f (remove1 x xs)) \<subseteq> set (map f xs)"
  using set_remove1_subset [of x xs] by auto

lemma new_service_run: "new_service now = run (map (Add now) test_expenses) empty_service"
  by (simp add: new_service_def initialize_test_data_def test_expenses_def)

lemma run_append: "run (rs1 @ rs2) s = run rs2 (run rs1 s)"
  by (induction rs1 arbitrary: s) auto

lemma trace_append: "trace (rs1 @ rs2) s = trace rs1 s @ trace rs2 (run rs1 s)"
  by (induction rs1 arbitrary: s) auto

lemma assigned_append: "assigned (xs @ ys) = assigned xs @ assigned ys"
  by (induction xs rule: assigned.induct) auto

lemma store_inv_empty: "store_inv empty_service"
  by (simp add: store_inv_def empty_service_def stored_ids_def)

lemma serve_inv: "store_inv s \<Longrightarrow> store_inv (serve r s)"
proof (cases r)
  case (Add now e)
  assume "store_inv s"
  then show ?thesis using Add
    by (fastforce simp: store_inv_def stored_ids_def add_expense_def Let_def)
next
  case (Update now i u)
  assume inv: "store_inv s"
  show ?thesis
  proof (cases "get_expense_by_id i s")
    case (Inl err)
    then show ?thesis using inv Update by (simp add: update_expense_def)
  next
    case (Inr e)
    then have "eid (apply_update now u e) = i"
      using get_expense_by_id_found [OF Inr] by (simp add: eid_apply_update)
    then show ?thesis using inv Update Inr
      by (simp add: update_expense_def Let_def store_inv_def stored_ids_def map_eid_assign_first)
  qed
next
  case (Delete i)
  assume inv: "store_inv s"
  show ?thesis
  proof (cases "get_expense_by_id i s")
    case (Inl err)
    then show ?thesis using inv Delete by (simp add: delete_expense_def)
  next
    case (Inr e)
    then show ?thesis using inv Delete set_map_remove1 [of eid e "expenses s"]
      by (auto simp: delete_expense_def store_inv_def stored_ids_def distinct_map_remove1)
  qed
qed

lemma serve_next_id: "next_id s \<le> next_id (serve r s)"
  by (cases r) (auto simp: add_expense_def update_expense_def delete_expense_def Let_def split: sum.splits)

lemma run_inv: "store_inv s \<Longrightarrow> store_inv (run rs s)"
  by (induction rs arbitrary: s) (auto simp: serve_inv)

lemma assigned_bound: "a \<in> set (assigned (trace rs s)) \<Longrightarrow> next_id s \<le> a"
proof (induction rs arbitrary: s)
  case Nil
  then show ?case by simp
next
  case (Cons r rs)
  from Cons.prems have "a \<in> set (assigned (events r s)) \<or> a \<in> set (assigned (trace rs (serve r s)))"
    by (simp add: assigned_append)
  then show ?case
  proof
    assume "a \<in> set (assigned (events r s))"
    then show ?thesis
      by (cases r) (auto simp: add_expense_def Let_def split: sum.splits)
  next
    assume "a \<in> set (assigned (trace rs (serve r s)))"
    then have "next_id (serve r s) \<le> a" by (rule Cons.IH)
    then show ?thesis using serve_next_id [of s r] by simp
  qed
qed

lemma assigned_events_next: "a \<in> set (assigned (events r s)) \<Longrightarrow> a < next_id (serve r s)"
  by (cases r) (auto simp: add_expense_def Let_def split: sum.splits)

lemma assigned_sorted: "sorted_wrt (<) (assigned (trace rs s))"
proof (induction rs arbitrary: s)
  case Nil
  then show ?case by simp
next
  case (Cons r rs)
  have "sorted_wrt (<) (assigned (events r s))"
    by (cases r) (auto split: sum.splits)
  moreover have "\<forall>a \<in> set (assigned (events r s)). \<forall>b \<in> set (assigned (trace rs (serve r s))). a < b"
    using assigned_events_next assigned_bound by fastforce
  ultimately show ?case using Cons.IH [of "serve r s"]
    by (simp add: assigned_append sorted_wrt_append)
qed

lemma deleted_events_next: "store_inv s \<Longrightarrow> events r s = [Deleted x] \<Longrightarrow> x < next_id (serve r s)"
proof (cases r)
  case (Delete i)
  assume inv: "store_inv s" and ev: "events r s = [Deleted x]"
  from ev Delete have "x = i" and "fst (delete_expense i s) \<noteq> Inl KeyError"
    by (auto split: sum.splits)
  then have "x \<in> set (stored_ids s)"
    using get_expense_by_id_KeyError [of i s]
    by (auto simp: delete_expense_def split: sum.splits)
  then show ?thesis using inv serve_next_id [of s r] by (auto simp: store_inv_def)
qed auto

lemma deleted_not_reassigned:
  "store_inv s \<Longrightarrow> trace rs s = pre @ Deleted x # post \<Longrightarrow> x \<notin> set (assigned post)"
proof (induction rs arbitrary: s pre)
  case Nil
  then show ?case by simp
next
  case (Cons r rs)
  have inv': "store_inv (serve r s)" using Cons.prems(1) by (rule serve_inv)
  have shape: "events r s = [] \<or> (\<exists>ev. events r s = [ev])"
    by (cases r) (auto split: sum.splits)
  from Cons.prems(2) have eq: "events r s @ trace rs (serve r s) = pre @ Deleted x # post"
    by simp
  show ?case
  proof (cases "events r s")
    case Nil
    with eq have "trace rs (serve r s) = pre @ Deleted x # post" by simp
    then show ?thesis using Cons.IH inv' by blast
  next
    case (Cons ev evs)
    with shape have evs: "events r s = [ev]" by auto
    show ?thesis
    proof (cases pre)
      case Nil
      with eq evs have "ev = Deleted x" and post: "post = trace rs (serve r s)" by auto
      then have "x < next_id (serve r s)"
        using deleted_events_next [OF Cons.prems(1)] evs by simp
      then show ?thesis using assigned_bound [of x rs "serve r s"] post by auto
    next
      case (Cons p pre')
      with eq evs have "trace rs (serve r s) = pre' @ Deleted x # post" by auto
      then show ?thesis using Cons.IH inv' by blast
    qed
  qed
qed

text \<open>
  Claim C9. Whatever requests an object serves after its construction, the stored
  identifiers are pairwise distinct; the identifiers handed out over its whole history,
  the constructor's included, are strictly increasing, so each \<open>add_expense\<close> assigns
  an identifier above every one assigned before; and once an identifier has been
  deleted no later \<open>add_expense\<close> assigns it.
\<close>

theorem ids_unique_monotone_never_reused:
  "distinct (stored_ids (run rs (new_service now))) \<and>
   sorted_wrt (<) (assigned (history now rs)) \<and>
   (\<forall>pre x post. history now rs = pre @ Deleted x # post \<longrightarrow> x \<notin> set (assigned post))"
proof -
  have "store_inv (run rs (new_service now))"
    unfolding new_service_run by (intro run_inv store_inv_empty)
  then have "distinct (stored_ids (run rs (new_service now)))"
    by (simp add: store_inv_def)
  moreover have "sorted_wrt (<) (assigned (history now rs))"
    unfolding history_def by (rule assigned_sorted)
  moreover have "\<forall>pre x post. history now rs = pre @ Deleted x # post \<longrightarrow> x \<notin> set (assigned post)"
    unfolding history_def using deleted_not_reassigned [OF store_inv_empty] by blast
  ultimately show ?thesis by blast
qed

text \<open>
  The object deletes expense 2, adds an expense and is asked to delete the absent
  expense 9: the new expense gets 6, not the freed 2.
\<close>

theorem ids_unique_monotone_never_reused_witness:
  "distinct (stored_ids (run [Delete 2, Add 1 \<lparr>c_amount = 5, c_description = ''Tea'', c_paid_by = ''Om''\<rparr>, Delete 9] (new_service 0))) \<and>
   sorted_wrt (<) (assigned (history 0 [Delete 2, Add 1 \<lparr>c_amount = 5, c_description = ''Tea'', c_paid_by = ''Om''\<rparr>, Delete 9])) \<and>
   history 0 [Delete 2, Add 1 \<lparr>c_amount = 5, c_description = ''Tea'', c_paid_by = ''Om''\<rparr>, Delete 9] =
     [Assigned 1, Assigned 2, Assigned 3, Assigned 4, Assigned 5] @ Deleted 2 # [Assigned 6] \<and>
   2 \<notin> set (assigned [Assigned 6])"
proof -
  let ?rs = "[Delete 2, Add 1 \<lparr>c_amount = 5, c_description = ''Tea'', c_paid_by = ''Om''\<rparr>, Delete 9]"
  have h: "history 0 ?rs = [Assigned 1, Assigned 2, Assigned 3, Assigned 4, Assigned 5] @ Deleted 2 # [Assigned 6]"
    by code_simp
  note c = ids_unique_monotone_never_reused [of ?rs 0]
  from c have "history 0 ?rs = [Assigned 1, Assigned 2, Assigned 3, Assigned 4, Assigned 5] @ Deleted 2 # [Assigned 6]
      \<longrightarrow> 2 \<notin> set (assigned [Assigned 6])"
    by blast
  with h c show ?thesis by blast
qed

text \<open>
  Claim C10. \<open>update_expense\<close> and \<open>delete_expense\<close> raise \<open>KeyError\<close> exactly when no
  stored expense has the identifier, and a call that raises leaves the object, and so
  its list of expenses, as it was.
\<close>

theorem update_delete_KeyError:
  "(fst (update_expense now i u s) = Inl KeyError \<longleftrightarrow> i \<notin> set (stored_ids s)) \<and>
   (fst (delete_expense i s) = Inl KeyError \<longleftrightarrow> i \<notin> set (stored_ids s)) \<and>
   (fst (update_expense now i u s) = Inl KeyError \<longrightarrow> snd (update_expense now i u s) = s) \<and>
   (fst (delete_expense i s) = Inl KeyError \<longrightarrow> snd (delete_expense i s) = s)"
  using get_expense_by_id_KeyError [of i s]
  by (auto simp: update_expense_def delete_expense_def Let_def split: sum.splits)

text \<open>Identifier 9 is absent from a fresh object: both calls raise and change nothing.\<close>

theorem update_delete_KeyError_witness:
  "9 \<notin> set (stored_ids (new_service 0)) \<and>
   fst (update_expense 1 9 \<lparr>u_amount = Some 7, u_description = None, u_paid_by = None\<rparr> (new_service 0)) = Inl KeyError \<and>
   snd (update_expense 1 9 \<lparr>u_amount = Some 7, u_description = None, u_paid_by = None\<rparr> (new_service 0)) = new_service 0 \<and>
   fst (delete_expense 9 (new_service 0)) = Inl KeyError \<and>
   snd (delete_expense 9 (new_service 0)) = new_service 0"
proof -
  have h: "9 \<notin> set (stored_ids (new_service 0))"
    by code_simp
  show ?thesis
    using h update_delete_KeyError [of 1 9 "\<lparr>u_amount = Some 7, u_description = None, u_paid_by = None\<rparr>" "new_service 0"]
    by blast
qed

section \<open>The balance reducer: what it returns\<close>

lemma dict_get_update:
  "dict_get (AList.update k v d) k' dflt = (if k' = k then v else dict_get d k' dflt)"
  by (simp add: dict_get_def update_conv')

lemma dict_get_Nil: "dict_get [] k dflt = dflt"
  by (simp add: dict_get_def)

lemma paid_by_person_get:
  "dict_get (paid_by_person es d) p 0 =
     dict_get d p 0 + sum_list (map amount (filter (\<lambda>e. paid_by e = p) es))"
  by (induction es arbitrary: d) (auto simp: dict_get_update)

lemma update_fresh: "k \<notin> fst ` set d \<Longrightarrow> AList.update k v d = d @ [(k, v)]"
  by (induction d) auto

lemma fill_balances_shape:
  "distinct ps \<Longrightarrow> set ps \<inter> fst ` set bal = {} \<Longrightarrow>
   fill_balances paid sh ps bal = bal @ map (\<lambda>p. (p, round2 (dict_get paid p 0 - sh))) ps"
proof (induction ps arbitrary: bal)
  case Nil
  then show ?case by simp
next
  case (Cons p ps)
  have fresh: "p \<notin> fst ` set bal" using Cons.prems(2) by auto
  have "set ps \<inter> fst ` set (bal @ [(p, round2 (dict_get paid p 0 - sh))]) = {}"
    using Cons.prems by auto
  then show ?case using Cons.IH [of "bal @ [(p, round2 (dict_get paid p 0 - sh))]"] Cons.prems(1)
    by (simp add: Let_def update_fresh [OF fresh])
qed

lemma unique_people_empty: "unique_people s = {} \<longleftrightarrow> expenses s = []"
  by (simp add: unique_people_def)

lemma num_people_pos: "expenses s \<noteq> [] \<Longrightarrow> 1 \<le> num_people s"
proof -
  assume "expenses s \<noteq> []"
  then have "unique_people s \<noteq> {}" by (simp add: unique_people_empty)
  moreover have "finite (unique_people s)" by (simp add: unique_people_def)
  ultimately have "card (unique_people s) \<noteq> 0" by simp
  then show ?thesis by (simp add: num_people_def)
qed

lemma individual_balances_shape:
  assumes "iterates order (unique_people s)"
  shows "calculate_individual_balances order s = map (\<lambda>p. (p, net_balance s p)) order"
proof (cases "expenses s = []")
  case True
  then have "order = []" using assms by (simp add: iterates_def unique_people_def)
  then show ?thesis using True
    by (simp add: calculate_individual_balances_def individual_balances_traced_def)
next
  case False
  then have n: "num_people s \<noteq> 0" using num_people_pos [of s] by simp
  have d: "distinct order" using assms by (simp add: iterates_def)
  have "fill_balances (paid_by_person (expenses s) []) (total_amount s / of_nat (num_people s)) order []
        = map (\<lambda>p. (p, round2 (dict_get (paid_by_person (expenses s) []) p 0 - total_amount s / of_nat (num_people s)))) order"
    using fill_balances_shape [OF d, of "[]"] by simp
  also have "\<dots> = map (\<lambda>p. (p, net_balance s p)) order"
    by (simp add: paid_by_person_get dict_get_Nil net_balance_def paid_total_def total_amount_def
        num_people_def unique_people_def)
  finally show ?thesis using False n
    by (simp add: calculate_individual_balances_def individual_balances_traced_def Let_def)
qed




text \<open>
  Claim C8. A non-empty list of expenses has at least one distinct payer, so the
  reducer reaches the division with a divisor that is not zero; the \<open>return\<close> of the
  guard \<open>num_people == 0\<close> is taken for no list at all.
\<close>

theorem distinct_payers_positive:
  "(expenses s \<noteq> [] \<longrightarrow>
      1 \<le> num_people s \<and> fst (individual_balances_traced order s) = Computed) \<and>
   fst (individual_balances_traced order s) \<noteq> No_People"
proof (cases "expenses s = []")
  case True
  then show ?thesis by (simp add: individual_balances_traced_def)
next
  case False
  then have "1 \<le> num_people s" by (rule num_people_pos)
  then show ?thesis using False by (simp add: individual_balances_traced_def Let_def)
qed

theorem distinct_payers_positive_witness:
  "expenses (new_service 0) \<noteq> [] \<and>
   1 \<le> num_people (new_service 0) \<and>
   num_people (new_service 0) = 3 \<and>
   fst (individual_balances_traced [''Om'', ''Sanket'', ''Shantanu''] (new_service 0)) = Computed"
proof -
  have e: "expenses (new_service 0) \<noteq> []"
    by code_simp
  have n: "num_people (new_service 0) = 3"
    by code_simp
  show ?thesis
    using distinct_payers_positive [of "new_service 0" "[''Om'', ''Sanket'', ''Shantanu'']"] e n
    by blast
qed

lemma people_data_keys: "fst ` set (people_data es d) = fst ` set d \<union> paid_by ` set es"
proof (induction es arbitrary: d)
  case Nil
  then show ?case by simp
next
  case (Cons e es)
  obtain paid n where g: "dict_get d (paid_by e) (0, 0) = (paid, n)"
    by (cases "dict_get d (paid_by e) (0::rat, 0::nat)") auto
  have "fst ` set (AList.update (paid_by e) (paid + amount e, n + 1) d) = insert (paid_by e) (fst ` set d)"
    using dom_update [of "paid_by e" "(paid + amount e, n + 1)" d] by (simp add: dom_map_of_conv_image_fst)
  then show ?case using Cons.IH [of "AList.update (paid_by e) (paid + amount e, n + 1) d"] g
    by auto
qed

text \<open>
  Claim C7. The names in the output of \<open>calculate_balances\<close> and the names in the output
  of \<open>get_all_people\<close> are both exactly the distinct payers of the stored expenses; a
  name that paid no expense is in neither output.
\<close>

theorem participants_are_payers:
  "iterates order (unique_people s) \<Longrightarrow>
     set (map person (calculate_balances order s)) = paid_by ` set (expenses s) \<and>
     set (map name (get_all_people order s)) = paid_by ` set (expenses s) \<and>
     (\<forall>n. n \<notin> paid_by ` set (expenses s) \<longrightarrow>
        n \<notin> set (map person (calculate_balances order s)) \<and>
        n \<notin> set (map name (get_all_people order s)))"
proof -
  assume it: "iterates order (unique_people s)"
  have "set (map person (calculate_balances order s)) = fst ` set (calculate_individual_balances order s)"
    by (force simp: calculate_balances_def)
  also have "\<dots> = paid_by ` set (expenses s)"
    using it unfolding individual_balances_shape [OF it]
    by (force simp: iterates_def unique_people_def)
  finally have b: "set (map person (calculate_balances order s)) = paid_by ` set (expenses s)" .
  have "set (map name (get_all_people order s)) = fst ` set (people_data (expenses s) [])"
    by (force simp: get_all_people_def Let_def)
  then have g: "set (map name (get_all_people order s)) = paid_by ` set (expenses s)"
    by (simp add: people_data_keys)
  from b g show ?thesis by simp
qed

theorem participants_are_payers_witness:
  "iterates [''Sanket'', ''Shantanu'', ''Om''] (unique_people (new_service 0)) \<and>
   set (map person (calculate_balances [''Sanket'', ''Shantanu'', ''Om''] (new_service 0)))
     = paid_by ` set (expenses (new_service 0)) \<and>
   set (map name (get_all_people [''Sanket'', ''Shantanu'', ''Om''] (new_service 0)))
     = paid_by ` set (expenses (new_service 0)) \<and>
   ''Zoya'' \<notin> paid_by ` set (expenses (new_service 0)) \<and>
   ''Zoya'' \<notin> set (map person (calculate_balances [''Sanket'', ''Shantanu'', ''Om''] (new_service 0))) \<and>
   ''Zoya'' \<notin> set (map name (get_all_people [''Sanket'', ''Shantanu'', ''Om''] (new_service 0)))"
proof -
  have h: "iterates [''Sanket'', ''Shantanu'', ''Om''] (unique_people (new_service 0))"
    by code_simp
  have z: "''Zoya'' \<notin> paid_by ` set (expenses (new_service 0))"
    by code_simp
  show ?thesis
    using participants_are_payers [OF h] h z by blast
qed

section \<open>The balance reducer: the sum of the net balances\<close>









section \<open>The settlement matcher\<close>



















section \<open>Settlement closure\<close>









lemma side_inv_other:
  assumes "side_inv xs0 flow i xs"
    and "\<And>k. k < length xs0 \<Longrightarrow> flow' (e_person (xs0 ! k)) = flow (e_person (xs0 ! k))"
  shows "side_inv xs0 flow' i xs"
proof -
  have "length xs = length xs0" using assms(1) by (metis side_inv_def length_map)
  then show ?thesis using assms by (auto simp: side_inv_def)
qed














lemma side_inv_length: "side_inv xs0 flow i xs \<Longrightarrow> length xs = length xs0"
  by (metis side_inv_def length_map)






section \<open>The loop in exact arithmetic\<close>

text \<open>
  The loop emits only for an amount above 0.01 and advances a cursor only for an amount
  below 0.01. In exact arithmetic a remaining amount of exactly 0.01 does neither, and
  the loop then repeats the same state for ever: Asha paid 0.06, Bina 0.04, Chitra and
  Dev 0.01 each, so Asha is owed 0.03 and Chitra and Dev owe 0.02 each; after Chitra's
  0.02 Asha is left with 0.01, facing Dev's 0.02. With binary floating point the
  difference 0.03 - 0.02 is slightly below 0.01, Asha's cursor advances there and the
  loop ends; that is beyond this model, whose amounts are exact.
\<close>

lemma settle_loop_stuck:
  assumes "i < length ds" and "j < length cs" and "loop_body i j ds cs ss = (i, j, ds, cs, ss)"
  shows "settle_loop i j ds cs ss = None"
proof (rule ccontr)
  assume "settle_loop i j ds cs ss \<noteq> None"
  then obtain out where run: "settle_loop i j ds cs ss = Some out" by auto
  let ?Q = "\<lambda>i' j' ds' cs' ss' (out :: settlement_response list).
              (i', j', ds', cs', ss') \<noteq> (i, j, ds, cs, ss)"
  have "?Q i j ds cs ss out"
  proof (rule settle_loop.raw_induct [where P = ?Q, OF _ run])
    fix loop i' j' ds' cs' ss' out'
    assume IH: "\<And>i j ds cs ss out. loop i j ds cs ss = Some out \<Longrightarrow> ?Q i j ds cs ss out"
    assume eq: "(if i' < length ds' \<and> j' < length cs'
                 then case loop_body i' j' ds' cs' ss' of
                        (i', j', ds', cs', ss') \<Rightarrow> loop i' j' ds' cs' ss'
                 else Some ss') = Some out'"
    show "?Q i' j' ds' cs' ss' out'"
    proof
      assume "(i', j', ds', cs', ss') = (i, j, ds, cs, ss)"
      with eq assms have "loop i j ds cs ss = Some out'" by simp
      from IH [OF this] show False by simp
    qed
  qed
  then show False by simp
qed

lemma exact_cent_stalls:
  "calculate_settlements [''Asha'', ''Bina'', ''Chitra'', ''Dev'']
     (ledger 0 [(6 / 100, ''Asha''), (4 / 100, ''Bina''), (1 / 100, ''Chitra''), (1 / 100, ''Dev'')]) = None"
proof -
  let ?ds = "[\<lparr>e_person = ''Chitra'', e_amount = 0\<rparr>, \<lparr>e_person = ''Dev'', e_amount = 1 / 50\<rparr>]"
  let ?cs = "[\<lparr>e_person = ''Asha'', e_amount = 1 / 100\<rparr>]"
  let ?ss = "[\<lparr>from_person = ''Chitra'', to_person = ''Asha'', s_amount = 1 / 50\<rparr>]"
  have stuck: "settle_loop 1 0 ?ds ?cs ?ss = None"
    by (rule settle_loop_stuck) (simp_all add: loop_body_def Let_def)
  have bal: "calculate_individual_balances [''Asha'', ''Bina'', ''Chitra'', ''Dev'']
     (ledger 0 [(6 / 100, ''Asha''), (4 / 100, ''Bina''), (1 / 100, ''Chitra''), (1 / 100, ''Dev'')])
     = [(''Asha'', 3 / 100), (''Bina'', 1 / 100), (''Chitra'', - (1 / 50)), (''Dev'', - (1 / 50))]"
    by code_simp
  have "calculate_settlements [''Asha'', ''Bina'', ''Chitra'', ''Dev'']
     (ledger 0 [(6 / 100, ''Asha''), (4 / 100, ''Bina''), (1 / 100, ''Chitra''), (1 / 100, ''Dev'')])
     = settle_loop 0 0 [\<lparr>e_person = ''Chitra'', e_amount = 1 / 50\<rparr>, \<lparr>e_person = ''Dev'', e_amount = 1 / 50\<rparr>]
         [\<lparr>e_person = ''Asha'', e_amount = 3 / 100\<rparr>] []"
    unfolding calculate_settlements_def bal
    by (simp add: match_balances_def sort_reverse_def)
  also have "\<dots> = settle_loop 1 0 ?ds ?cs ?ss"
    by (subst settle_loop.simps)
       (simp add: loop_body_def Let_def round2_def round_half_even_def)
  finally show ?thesis using stuck by simp
qed

end
